theory Spec2Isabelle
  imports Main
begin

unbundle bit_operations_syntax

section \<open>Errors\<close>

text \<open>
  The exceptions that \<^verbatim>\<open>find_next_subnets\<close> can raise. \<^verbatim>\<open>AddressValueError\<close> and
  \<^verbatim>\<open>NetmaskValueError\<close> are the two subclasses of \<^verbatim>\<open>ValueError\<close> of Python's
  \<^verbatim>\<open>ipaddress\<close> module; \<open>HostBitsSet\<close> is the plain \<^verbatim>\<open>ValueError\<close> of a strict
  network constructor; \<open>NotANetwork\<close> is the plain \<^verbatim>\<open>ValueError\<close> of the factory
  \<^verbatim>\<open>ipaddress.ip_network\<close> (the text does not appear to be an IPv4 or IPv6 network);
  \<open>NoMoreSpace\<close> is the \<^verbatim>\<open>ValueError\<close> raised in the else branch
  of the containment test; \<open>ErrorCalculating e\<close> is the \<^verbatim>\<open>ValueError\<close> that the
  \<^verbatim>\<open>except ValueError\<close> handler raises, carrying the text of the error \<open>e\<close> it caught.
\<close>

datatype error =
    AddressValueError
  | NetmaskValueError
  | HostBitsSet
  | NotANetwork
  | NoMoreSpace
  | ErrorCalculating error
  | ZeroDivisionError

fun is_ValueError :: "error \<Rightarrow> bool" where
  "is_ValueError ZeroDivisionError = False"
| "is_ValueError _ = True"

section \<open>The part of Python's ipaddress module that the program uses\<close>

text \<open>
  Addresses are Python integers. The text form \<^verbatim>\<open>a.b.c.d/p\<close> of a block is modelled by the
  pair of the address as an integer and the prefix length.
\<close>

type_synonym cidr = "int \<times> int"

definition ALL_ONES :: int where
  "ALL_ONES = 2 ^ 32 - 1"

definition IPv4Address :: "int \<Rightarrow> error + int" where
  "IPv4Address n = (if n < 0 \<or> ALL_ONES < n then Inl AddressValueError else Inr n)"

definition make_netmask :: "int \<Rightarrow> error + int" where
  "make_netmask p =
     (if 0 \<le> p \<and> p \<le> 32 then Inr (ALL_ONES XOR drop_bit (nat p) ALL_ONES)
      else Inl NetmaskValueError)"

record ipv4_network =
  net_address :: int
  net_mask :: int
  net_prefixlen :: int

text \<open>The constructor \<^verbatim>\<open>IPv4Network(address, strict)\<close>.\<close>

definition IPv4Network :: "cidr \<Rightarrow> bool \<Rightarrow> error + ipv4_network" where
  "IPv4Network c strict =
     (case IPv4Address (fst c) of
        Inl e \<Rightarrow> Inl e
      | Inr packed \<Rightarrow>
          (case make_netmask (snd c) of
             Inl e \<Rightarrow> Inl e
           | Inr m \<Rightarrow>
               if packed AND m \<noteq> packed \<and> strict then Inl HostBitsSet
               else Inr \<lparr>net_address = packed AND m, net_mask = m, net_prefixlen = snd c\<rparr>))"

text \<open>
  The factory \<^verbatim>\<open>ipaddress.ip_network(address, strict)\<close> that the program calls. It tries
  the IPv4 constructor and swallows its \<^verbatim>\<open>AddressValueError\<close> and
  \<^verbatim>\<open>NetmaskValueError\<close>; the IPv6 constructor it tries next rejects the text of an IPv4
  block as well, and the factory raises its own plain \<^verbatim>\<open>ValueError\<close>. The
  \<^verbatim>\<open>ValueError\<close> of host bits set is not caught and leaves the factory as it is.
\<close>

definition ip_network :: "cidr \<Rightarrow> bool \<Rightarrow> error + ipv4_network" where
  "ip_network c strict =
     (case IPv4Network c strict of
        Inl e \<Rightarrow> if e = AddressValueError \<or> e = NetmaskValueError then Inl NotANetwork else Inl e
      | Inr n \<Rightarrow> Inr n)"

definition net_hostmask :: "ipv4_network \<Rightarrow> int" where
  "net_hostmask n = net_mask n XOR ALL_ONES"

definition net_broadcast :: "ipv4_network \<Rightarrow> int" where
  "net_broadcast n = net_address n OR net_hostmask n"

definition num_addresses :: "ipv4_network \<Rightarrow> int" where
  "num_addresses n = net_broadcast n - net_address n + 1"

definition subnet_of :: "ipv4_network \<Rightarrow> ipv4_network \<Rightarrow> bool" where
  "subnet_of a b \<longleftrightarrow> net_address b \<le> net_address a \<and> net_broadcast b \<ge> net_broadcast a"

definition contains :: "ipv4_network \<Rightarrow> int \<Rightarrow> bool" where
  "contains n a \<longleftrightarrow> net_address n \<le> a \<and> a \<le> net_broadcast n"

definition overlaps :: "ipv4_network \<Rightarrow> ipv4_network \<Rightarrow> bool" where
  "overlaps a b \<longleftrightarrow>
     contains b (net_address a) \<or> contains b (net_broadcast a) \<or>
     contains a (net_address b) \<or> contains a (net_broadcast b)"

section \<open>The finder\<close>

record SubnetInfo =
  cidr_block :: cidr
  network_address :: int
  broadcast_address :: int
  first_usable :: int
  last_usable :: int
  usable_ips :: int
  suggested_az :: string

record IncrementalSubnetFinder =
  vpc_cidr :: cidr
  existing_subnets :: "cidr list"
  available_azs :: "string list"

definition find_last_ip :: "IncrementalSubnetFinder \<Rightarrow> error + int option" where
  "find_last_ip self =
     (if existing_subnets self = [] then Inr None
      else (case ip_network (last (existing_subnets self)) True of
              Inl e \<Rightarrow> Inl e
            | Inr last_subnet \<Rightarrow> Inr (Some (net_broadcast last_subnet))))"

text \<open>The scan start address (the statements before the loop).\<close>

definition start_ip :: "IncrementalSubnetFinder \<Rightarrow> ipv4_network \<Rightarrow> error + int" where
  "start_ip self vpc_net =
     (case find_last_ip self of
        Inl e \<Rightarrow> Inl e
      | Inr None \<Rightarrow> Inr (net_address vpc_net)
      | Inr (Some last_ip) \<Rightarrow> IPv4Address (last_ip + 1))"

text \<open>
  The body of the \<^verbatim>\<open>try\<close> block. The fields of \<^verbatim>\<open>SubnetInfo\<close> are evaluated in the
  order they are written, so an address out of range is raised before the label is indexed.
\<close>

definition try_block ::
  "IncrementalSubnetFinder \<Rightarrow> ipv4_network \<Rightarrow> int \<Rightarrow> SubnetInfo list \<Rightarrow> int
     \<Rightarrow> error + SubnetInfo list \<times> int" where
  "try_block self vpc_net new_prefix available_subnets current_ip =
     (case ip_network (current_ip, new_prefix) False of
        Inl e \<Rightarrow> Inl e
      | Inr next_net \<Rightarrow>
          if subnet_of next_net vpc_net then
            (case IPv4Address (net_address next_net + 1) of
               Inl e \<Rightarrow> Inl e
             | Inr fu \<Rightarrow>
                 (case IPv4Address (net_broadcast next_net - 1) of
                    Inl e \<Rightarrow> Inl e
                  | Inr lu \<Rightarrow>
                      if length (available_azs self) = 0 then Inl ZeroDivisionError
                      else
                        (case IPv4Address (net_broadcast next_net + 1) of
                           Inl e \<Rightarrow> Inl e
                         | Inr ip' \<Rightarrow>
                             Inr (available_subnets @
                                  [\<lparr>cidr_block = (net_address next_net, net_prefixlen next_net),
                                    network_address = net_address next_net,
                                    broadcast_address = net_broadcast next_net,
                                    first_usable = fu,
                                    last_usable = lu,
                                    usable_ips = num_addresses next_net - 2,
                                    suggested_az =
                                      available_azs self !
                                        (length available_subnets mod length (available_azs self))\<rparr>],
                                  ip'))))
          else Inl NoMoreSpace)"

text \<open>One iteration of the loop: the \<^verbatim>\<open>try\<close> block under its \<^verbatim>\<open>except ValueError\<close>.\<close>

definition loop_body ::
  "IncrementalSubnetFinder \<Rightarrow> ipv4_network \<Rightarrow> int \<Rightarrow> SubnetInfo list \<Rightarrow> int
     \<Rightarrow> error + SubnetInfo list \<times> int" where
  "loop_body self vpc_net new_prefix available_subnets current_ip =
     (case try_block self vpc_net new_prefix available_subnets current_ip of
        Inl e \<Rightarrow> if is_ValueError e then Inl (ErrorCalculating e) else Inl e
      | Inr st \<Rightarrow> Inr st)"

text \<open>The \<^verbatim>\<open>while\<close> loop; \<open>None\<close> is a loop that never returns.\<close>

partial_function (option) scan ::
  "IncrementalSubnetFinder \<Rightarrow> ipv4_network \<Rightarrow> int \<Rightarrow> int \<Rightarrow> SubnetInfo list \<Rightarrow> int
     \<Rightarrow> (error + SubnetInfo list) option" where
  "scan self vpc_net new_prefix count available_subnets current_ip =
     (if int (length available_subnets) < count then
        (case loop_body self vpc_net new_prefix available_subnets current_ip of
           Inl e \<Rightarrow> Some (Inl e)
         | Inr st \<Rightarrow> scan self vpc_net new_prefix count (fst st) (snd st))
      else Some (Inr available_subnets))"

declare scan.simps [code]

definition find_next_subnets ::
  "IncrementalSubnetFinder \<Rightarrow> int \<Rightarrow> int \<Rightarrow> (error + SubnetInfo list) option" where
  "find_next_subnets self new_prefix count =
     (case ip_network (vpc_cidr self) True of
        Inl e \<Rightarrow> Some (Inl e)
      | Inr vpc_net \<Rightarrow>
          (case start_ip self vpc_net of
             Inl e \<Rightarrow> Some (Inl e)
           | Inr s \<Rightarrow> scan self vpc_net new_prefix count [] s))"

text \<open>The number of addresses of a block of prefix length \<open>p\<close>.\<close>

definition block_size :: "int \<Rightarrow> int" where
  "block_size p = 2 ^ nat (32 - p)"

section \<open>Masks as arithmetic\<close>

lemma ALL_ONES_mask: "ALL_ONES = mask 32"
  by (simp add: ALL_ONES_def mask_eq_exp_minus_1)

lemma and_netmask:
  fixes a :: int
  assumes "0 \<le> a" "a < 2 ^ 32" "k \<le> 32"
  shows "a AND (mask 32 XOR mask k) = a - a mod 2 ^ k"
proof -
  have a32: "take_bit 32 a = a"
    using assms by (simp add: take_bit_int_eq_self)
  have "a AND (mask 32 XOR mask k) = push_bit k (drop_bit k a)"
  proof (rule bit_eqI)
    fix n
    have "bit a n \<Longrightarrow> n < 32"
      using a32 by (metis bit_take_bit_iff)
    then show "bit (a AND (mask 32 XOR mask k)) n = bit (push_bit k (drop_bit k a)) n"
      using assms(3) by (auto simp: bit_simps)
  qed
  also have "\<dots> = a - a mod 2 ^ k"
    by (simp add: push_bit_eq_mult drop_bit_eq_div minus_mod_eq_div_mult)
  finally show ?thesis .
qed

lemma hostmask_eq:
  fixes k :: nat
  assumes "k \<le> 32"
  shows "(mask 32 XOR mask k) XOR mask 32 = (mask k :: int)"
  by (rule bit_eqI) (use assms in \<open>auto simp: bit_simps\<close>)

lemma or_hostmask:
  fixes a :: int
  assumes "a mod 2 ^ k = 0"
  shows "a OR mask k = a + 2 ^ k - 1"
proof -
  have "take_bit k a = 0"
    using assms by (simp add: take_bit_eq_mod)
  then have "a AND mask k = 0"
    by (simp add: take_bit_eq_mask)
  then have "a + mask k = a OR mask k"
    by (rule disjunctive_add_eq_or)
  then show ?thesis
    by (simp add: mask_eq_exp_minus_1)
qed

lemma make_netmask_Inr:
  assumes "make_netmask p = Inr m"
  shows "0 \<le> p \<and> p \<le> 32 \<and> m = mask 32 XOR mask (nat (32 - p))"
proof -
  have r: "0 \<le> p \<and> p \<le> 32" and m: "m = ALL_ONES XOR drop_bit (nat p) ALL_ONES"
    using assms by (auto simp: make_netmask_def split: if_splits)
  have "32 - nat p = nat (32 - p)" using r by linarith
  then show ?thesis using r m by (simp add: ALL_ONES_mask drop_bit_mask_eq)
qed

lemma ip_network_Inr:
  assumes "ip_network (a, p) strict = Inr n"
  shows "0 \<le> a" "a \<le> ALL_ONES" "0 \<le> p" "p \<le> 32"
    "net_prefixlen n = p"
    "net_address n = a - a mod block_size p"
    "net_broadcast n = net_address n + block_size p - 1"
    "strict \<Longrightarrow> net_address n = a"
proof -
  from assms obtain m where a: "IPv4Address a = Inr a" and m: "make_netmask p = Inr m"
    and n: "n = \<lparr>net_address = a AND m, net_mask = m, net_prefixlen = p\<rparr>"
    and s: "strict \<Longrightarrow> a AND m = a"
    by (auto simp: ip_network_def IPv4Network_def IPv4Address_def split: sum.splits if_splits)
  show a0: "0 \<le> a" and a1: "a \<le> ALL_ONES"
    using a by (auto simp: IPv4Address_def split: if_splits)
  from make_netmask_Inr [OF m]
  show p0: "0 \<le> p" and p1: "p \<le> 32" by auto
  have meq: "m = mask 32 XOR mask (nat (32 - p))"
    using make_netmask_Inr [OF m] by simp
  have k: "nat (32 - p) \<le> 32" using p0 by simp
  show "net_prefixlen n = p" using n by simp
  have "a < 2 ^ 32" using a1 by (simp add: ALL_ONES_def)
  then show na: "net_address n = a - a mod block_size p"
    using n meq and_netmask [OF a0 _ k] by (simp add: block_size_def)
  have "net_address n mod 2 ^ nat (32 - p) = 0"
    unfolding na block_size_def by (simp add: mod_diff_left_eq)
  then show "net_broadcast n = net_address n + block_size p - 1"
    using n meq hostmask_eq [OF k] or_hostmask
    by (simp add: net_broadcast_def net_hostmask_def ALL_ONES_mask block_size_def)
  show "net_address n = a" if strict
    using s [OF that] n by simp
qed

section \<open>The loop\<close>

lemma try_block_Inr:
  assumes "try_block self vpc_net p subs ip = Inr (subs', ip')"
  obtains next_net where
    "ip_network (ip, p) False = Inr next_net"
    "subnet_of next_net vpc_net"
    "available_azs self \<noteq> []"
    "ip' = net_broadcast next_net + 1"
    "ip' \<le> ALL_ONES"
    "subs' = subs @
       [\<lparr>cidr_block = (net_address next_net, net_prefixlen next_net),
         network_address = net_address next_net,
         broadcast_address = net_broadcast next_net,
         first_usable = net_address next_net + 1,
         last_usable = net_broadcast next_net - 1,
         usable_ips = num_addresses next_net - 2,
         suggested_az = available_azs self ! (length subs mod length (available_azs self))\<rparr>]"
  using assms
  by (auto simp: try_block_def IPv4Address_def split: sum.splits if_splits)

lemma loop_body_Inr:
  "loop_body self vpc_net p subs ip = Inr st \<longleftrightarrow> try_block self vpc_net p subs ip = Inr st"
  by (auto simp: loop_body_def split: sum.splits)

lemma loop_body_length:
  assumes "loop_body self vpc_net p subs ip = Inr st"
  shows "length (fst st) = Suc (length subs)"
proof -
  from assms have "try_block self vpc_net p subs ip = Inr (fst st, snd st)"
    by (simp add: loop_body_Inr)
  then show ?thesis by (rule try_block_Inr) simp
qed

lemma scan_terminates:
  "\<exists>r. scan self vpc_net p count subs ip = Some r"
proof (induction "nat (count - int (length subs))" arbitrary: subs ip)
  case 0
  then have "\<not> int (length subs) < count" by simp
  then show ?case by (subst scan.simps) simp
next
  case (Suc n)
  then have lt: "int (length subs) < count" by linarith
  show ?case
  proof (cases "loop_body self vpc_net p subs ip")
    case (Inl e)
    then show ?thesis using lt by (subst scan.simps) simp
  next
    case (Inr st)
    have "n = nat (count - int (length (fst st)))"
      using Suc.hyps(2) loop_body_length [OF Inr] by simp
    from Suc.hyps(1) [OF this]
    obtain r where "scan self vpc_net p count (fst st) (snd st) = Some r" by blast
    then show ?thesis using lt Inr by (subst scan.simps) simp
  qed
qed

lemma scan_rule:
  assumes "scan self vpc_net p count subs ip = Some (Inr res)"
    and "I subs ip"
    and step: "\<And>s i s' i'. I s i \<Longrightarrow> int (length s) < count \<Longrightarrow>
            try_block self vpc_net p s i = Inr (s', i') \<Longrightarrow> I s' i'"
  shows "\<exists>i. I res i \<and> \<not> int (length res) < count"
  using assms(1,2)
proof (induction "nat (count - int (length subs))" arbitrary: subs ip)
  case 0
  then have "\<not> int (length subs) < count" by simp
  with "0.prems" show ?case by (subst (asm) scan.simps) auto
next
  case (Suc n)
  then have lt: "int (length subs) < count" by linarith
  show ?case
  proof (cases "loop_body self vpc_net p subs ip")
    case (Inl e)
    with Suc.prems(1) lt show ?thesis by (subst (asm) scan.simps) simp
  next
    case (Inr st)
    have n: "n = nat (count - int (length (fst st)))"
      using Suc.hyps(2) loop_body_length [OF Inr] by simp
    have r: "scan self vpc_net p count (fst st) (snd st) = Some (Inr res)"
      using Suc.prems(1) lt Inr by (subst (asm) scan.simps) simp
    have "try_block self vpc_net p subs ip = Inr (fst st, snd st)"
      using Inr by (simp add: loop_body_Inr)
    then have "I (fst st) (snd st)"
      using step Suc.prems(2) lt by blast
    with Suc.hyps(1) [OF n r] show ?thesis .
  qed
qed

lemma scan_members:
  assumes "scan self vpc_net p count subs ip = Some (Inr res)" and "c \<in> set res"
  shows "c \<in> set subs \<or> (\<exists>s i i'. try_block self vpc_net p s i = Inr (s @ [c], i'))"
proof -
  let ?I = "\<lambda>s (i::int). \<forall>c\<in>set s. c \<in> set subs \<or>
              (\<exists>s i i'. try_block self vpc_net p s i = Inr (s @ [c], i'))"
  have "\<exists>i. ?I res i \<and> \<not> int (length res) < count"
  proof (rule scan_rule [OF assms(1), where I = ?I])
    show "?I subs ip" by simp
  next
    fix s i s' i'
    assume I: "?I s i" and tb: "try_block self vpc_net p s i = Inr (s', i')"
    from tb obtain c' where "s' = s @ [c']" by (rule try_block_Inr) blast
    with I tb show "?I s' i'" by auto
  qed
  with assms(2) show ?thesis by blast
qed

section \<open>What a returned candidate is\<close>

lemma block_size_pos: "0 < block_size p"
  by (simp add: block_size_def)

lemma candidate_facts:
  assumes "try_block self vpc_net p s i = Inr (s @ [c], i')"
  shows "0 \<le> p" "p \<le> 32"
    "cidr_block c = (network_address c, p)"
    "network_address c = i - i mod block_size p"
    "broadcast_address c = network_address c + block_size p - 1"
    "first_usable c = network_address c + 1"
    "last_usable c = broadcast_address c - 1"
    "usable_ips c = block_size p - 2"
    "net_address vpc_net \<le> network_address c"
    "broadcast_address c \<le> net_broadcast vpc_net"
    "suggested_az c = available_azs self ! (length s mod length (available_azs self))"
    "i' = broadcast_address c + 1"
proof -
  from assms obtain n where n: "ip_network (i, p) False = Inr n"
    and sub: "subnet_of n vpc_net"
    and c: "c = \<lparr>cidr_block = (net_address n, net_prefixlen n),
         network_address = net_address n,
         broadcast_address = net_broadcast n,
         first_usable = net_address n + 1,
         last_usable = net_broadcast n - 1,
         usable_ips = num_addresses n - 2,
         suggested_az = available_azs self ! (length s mod length (available_azs self))\<rparr>"
    and i': "i' = net_broadcast n + 1"
    by (rule try_block_Inr) simp
  note f = ip_network_Inr [OF n]
  show "0 \<le> p" "p \<le> 32" by (rule f)+
  show "cidr_block c = (network_address c, p)" using c f(5) by simp
  show "network_address c = i - i mod block_size p" using c f(6) by simp
  show "broadcast_address c = network_address c + block_size p - 1" using c f(7) by simp
  show "first_usable c = network_address c + 1" using c by simp
  show "last_usable c = broadcast_address c - 1" using c by simp
  show "usable_ips c = block_size p - 2" using c f(7) by (simp add: num_addresses_def)
  show "net_address vpc_net \<le> network_address c" using c sub by (simp add: subnet_of_def)
  show "broadcast_address c \<le> net_broadcast vpc_net" using c sub by (simp add: subnet_of_def)
  show "suggested_az c = available_azs self ! (length s mod length (available_azs self))"
    using c by simp
  show "i' = broadcast_address c + 1" using c i' by simp
qed

lemma find_next_subnets_Inr:
  assumes "find_next_subnets self p count = Some (Inr res)"
  obtains vpc_net s where
    "ip_network (vpc_cidr self) True = Inr vpc_net"
    "start_ip self vpc_net = Inr s"
    "scan self vpc_net p count [] s = Some (Inr res)"
  using assms by (auto simp: find_next_subnets_def split: sum.splits)

lemma find_next_subnets_members:
  assumes "find_next_subnets self p count = Some (Inr res)" and "c \<in> set res"
    and "ip_network (vpc_cidr self) True = Inr vpc_net"
  shows "\<exists>s i i'. try_block self vpc_net p s i = Inr (s @ [c], i')"
proof -
  from assms(1) obtain v s where v: "ip_network (vpc_cidr self) True = Inr v"
    and sc: "scan self v p count [] s = Some (Inr res)"
    by (rule find_next_subnets_Inr)
  from v assms(3) have "v = vpc_net" by simp
  with scan_members [OF sc assms(2)] show ?thesis by simp
qed

lemma find_next_subnets_returns:
  "\<exists>r. find_next_subnets self p count = Some r"
  using scan_terminates by (auto simp: find_next_subnets_def split: sum.splits)

section \<open>The highest allocated address\<close>

lemma network_nonempty:
  assumes "ip_network c strict = Inr n"
  shows "net_address n \<le> net_broadcast n"
proof -
  from assms have "ip_network (fst c, snd c) strict = Inr n" by simp
  from ip_network_Inr(7) [OF this] block_size_pos [of "snd c"] show ?thesis by simp
qed

lemma last_allocated_highest:
  assumes m: "map (\<lambda>c. ip_network c True) cs = map Inr allocated"
    and s: "sorted_wrt (\<lambda>a b. net_address a \<le> net_address b \<and> \<not> overlaps a b) allocated"
    and a: "a \<in> set allocated"
  shows "net_broadcast a \<le> net_broadcast (last allocated)"
proof (cases "a = last allocated")
  case True
  then show ?thesis by simp
next
  case False
  from a have ne: "allocated \<noteq> []" by auto
  then have split: "allocated = butlast allocated @ [last allocated]" by simp
  have "set allocated = set (butlast allocated) \<union> {last allocated}"
    by (subst split) simp
  with a False have ab: "a \<in> set (butlast allocated)" by simp
  have "sorted_wrt (\<lambda>a b. net_address a \<le> net_address b \<and> \<not> overlaps a b)
          (butlast allocated @ [last allocated])"
    using s split by simp
  then have "\<forall>x\<in>set (butlast allocated). net_address x \<le> net_address (last allocated)
           \<and> \<not> overlaps x (last allocated)"
    unfolding sorted_wrt_append by simp
  with ab have le: "net_address a \<le> net_address (last allocated)"
    and no: "\<not> overlaps a (last allocated)" by auto
  have "Inr (last allocated) \<in> set (map Inr allocated)"
    using ne by simp
  then have "Inr (last allocated) \<in> set (map (\<lambda>c. ip_network c True) cs)"
    by (simp only: m)
  then obtain c where "ip_network c True = Inr (last allocated)" by auto
  then have "net_address (last allocated) \<le> net_broadcast (last allocated)"
    by (rule network_nonempty)
  with le no show ?thesis
    by (simp add: overlaps_def contains_def)
qed

section \<open>The first iteration\<close>

lemma start_ip_valid:
  assumes "ip_network (vpc_cidr self) True = Inr vpc_net" and "start_ip self vpc_net = Inr s"
  shows "IPv4Address s = Inr s"
proof (cases "find_last_ip self")
  case (Inl e)
  with assms(2) show ?thesis by (simp add: start_ip_def)
next
  case (Inr l)
  show ?thesis
  proof (cases l)
    case None
    from assms(1) have "ip_network (fst (vpc_cidr self), snd (vpc_cidr self)) True = Inr vpc_net"
      by simp
    note f = ip_network_Inr [OF this]
    from assms(2) Inr None have "s = net_address vpc_net" by (simp add: start_ip_def)
    with f(1,2,8) show ?thesis by (simp add: IPv4Address_def)
  next
    case (Some last_ip)
    with assms(2) Inr have "IPv4Address (last_ip + 1) = Inr s" by (simp add: start_ip_def)
    then show ?thesis by (auto simp: IPv4Address_def split: if_splits)
  qed
qed

lemma scan_first:
  assumes "1 \<le> count"
  shows "scan self vpc_net p count [] s =
     (case loop_body self vpc_net p [] s of
        Inl e \<Rightarrow> Some (Inl e)
      | Inr st \<Rightarrow> scan self vpc_net p count (fst st) (snd st))"
  using assms by (subst scan.simps) simp

lemma larger_block_not_subnet:
  assumes n: "ip_network (a, p) False = Inr n"
    and v: "ip_network c True = Inr vpc_net"
    and lt: "p < net_prefixlen vpc_net"
  shows "\<not> subnet_of n vpc_net"
proof
  assume sub: "subnet_of n vpc_net"
  from v have "ip_network (fst c, snd c) True = Inr vpc_net" by simp
  note g = ip_network_Inr [OF this]
  note f = ip_network_Inr [OF n]
  have "nat (32 - snd c) < nat (32 - p)"
    using lt g(4,5) by simp
  then have "(2::int) ^ nat (32 - snd c) < 2 ^ nat (32 - p)"
    by (rule power_strict_increasing) simp
  then have "block_size (snd c) < block_size p"
    by (simp add: block_size_def)
  with sub f(7) g(7) show False
    by (simp add: subnet_of_def)
qed

section \<open>A run on concrete blocks\<close>

lemmas eval_defs = find_next_subnets_def ip_network_def IPv4Network_def IPv4Address_def
  make_netmask_def
  ALL_ONES_def start_ip_def find_last_ip_def scan.simps loop_body_def try_block_def subnet_of_def
  net_broadcast_def net_hostmask_def num_addresses_def

lemma example_run:
  "find_next_subnets
     \<lparr>vpc_cidr = (167772160, 16), existing_subnets = [(167772160, 24)],
      available_azs = [''a'', ''b'']\<rparr> 24 2 =
   Some (Inr [\<lparr>cidr_block = (167772416, 24), network_address = 167772416,
               broadcast_address = 167772671, first_usable = 167772417,
               last_usable = 167772670, usable_ips = 254, suggested_az = ''a''\<rparr>,
              \<lparr>cidr_block = (167772672, 24), network_address = 167772672,
               broadcast_address = 167772927, first_usable = 167772673,
               last_usable = 167772926, usable_ips = 254, suggested_az = ''b''\<rparr>])"
  by (simp add: eval_defs)

section \<open>Termination\<close>

text \<open>
  Claim C10. For every finder, target prefix and count, \<open>find_next_subnets\<close> returns: every
  iteration of the loop either raises or appends exactly one candidate and moves the scan
  pointer strictly forward, so the loop accepts at most \<open>count\<close> times and cannot run
  forever.
\<close>

theorem find_next_subnets_terminates:
  "(\<exists>r. find_next_subnets self new_prefix count = Some r)
   \<and> (loop_body self vpc_net new_prefix subs current_ip = Inr (subs', ip') \<longrightarrow>
        length subs' = Suc (length subs) \<and> current_ip < ip')"
proof (intro conjI impI)
  show "\<exists>r. find_next_subnets self new_prefix count = Some r"
    by (rule find_next_subnets_returns)
next
  assume lb: "loop_body self vpc_net new_prefix subs current_ip = Inr (subs', ip')"
  from loop_body_length [OF lb] show "length subs' = Suc (length subs)" by simp
  from lb have tb: "try_block self vpc_net new_prefix subs current_ip = Inr (subs', ip')"
    by (simp add: loop_body_Inr)
  then obtain c where s': "subs' = subs @ [c]" by (rule try_block_Inr) blast
  note f = candidate_facts [OF tb [unfolded s']]
  have "current_ip mod block_size new_prefix < block_size new_prefix"
    using block_size_pos by (rule pos_mod_bound)
  with f(4,5,12) show "current_ip < ip'" by simp
qed

theorem find_next_subnets_terminates_witness:
  "(\<exists>r. find_next_subnets \<lparr>vpc_cidr = (167772160, 16), existing_subnets = [(167772160, 24)], available_azs = [''a'', ''b'']\<rparr> 24 2 = Some r)
   \<and> loop_body \<lparr>vpc_cidr = (167772160, 16), existing_subnets = [(167772160, 24)], available_azs = [''a'', ''b'']\<rparr> \<lparr>net_address = 167772160, net_mask = 4294901760, net_prefixlen = 16\<rparr> 24 [] 167772544 =
       Inr ([\<lparr>cidr_block = (167772416, 24), network_address = 167772416, broadcast_address = 167772671, first_usable = 167772417, last_usable = 167772670, usable_ips = 254, suggested_az = ''a''\<rparr>], 167772672)
   \<and> length [\<lparr>cidr_block = (167772416, 24), network_address = 167772416, broadcast_address = 167772671, first_usable = 167772417, last_usable = 167772670, usable_ips = 254, suggested_az = ''a''\<rparr>] = Suc (length ([] :: SubnetInfo list))
   \<and> (167772544 :: int) < 167772672"
proof -
  have lb: "loop_body \<lparr>vpc_cidr = (167772160, 16), existing_subnets = [(167772160, 24)], available_azs = [''a'', ''b'']\<rparr> \<lparr>net_address = 167772160, net_mask = 4294901760, net_prefixlen = 16\<rparr> 24 [] 167772544 =
       Inr ([\<lparr>cidr_block = (167772416, 24), network_address = 167772416, broadcast_address = 167772671, first_usable = 167772417, last_usable = 167772670, usable_ips = 254, suggested_az = ''a''\<rparr>], 167772672)"
    by (simp add: eval_defs)
  show ?thesis
    using lb
      find_next_subnets_terminates [where self = "\<lparr>vpc_cidr = (167772160, 16), existing_subnets = [(167772160, 24)], available_azs = [''a'', ''b'']\<rparr>" and new_prefix = 24 and count = 2
        and vpc_net = "\<lparr>net_address = 167772160, net_mask = 4294901760, net_prefixlen = 16\<rparr>" and subs = "[]" and current_ip = 167772544
        and subs' = "[\<lparr>cidr_block = (167772416, 24), network_address = 167772416, broadcast_address = 167772671, first_usable = 167772417, last_usable = 167772670, usable_ips = 254, suggested_az = ''a''\<rparr>]" and ip' = 167772672]
    by simp
qed

section \<open>Containment\<close>

text \<open>
  Claim C5. On a successful call every returned candidate lies within the parent block: its
  network address and its broadcast address are both addresses of the parent.
\<close>

theorem candidates_within_parent:
  assumes "find_next_subnets self new_prefix count = Some (Inr res)"
    and "ip_network (vpc_cidr self) True = Inr vpc_net"
    and "c \<in> set res"
  shows "contains vpc_net (network_address c) \<and> contains vpc_net (broadcast_address c)"
proof -
  from find_next_subnets_members [OF assms(1,3,2)]
  obtain s i i' where tb: "try_block self vpc_net new_prefix s i = Inr (s @ [c], i')" by blast
  note f = candidate_facts [OF tb]
  have "network_address c \<le> broadcast_address c"
    using f(5) block_size_pos [of new_prefix] by simp
  with f(9,10) show ?thesis by (simp add: contains_def)
qed

theorem candidates_within_parent_witness:
  "find_next_subnets \<lparr>vpc_cidr = (167772160, 16), existing_subnets = [(167772160, 24)], available_azs = [''a'', ''b'']\<rparr> 24 2 =
     Some (Inr [\<lparr>cidr_block = (167772416, 24), network_address = 167772416, broadcast_address = 167772671, first_usable = 167772417, last_usable = 167772670, usable_ips = 254, suggested_az = ''a''\<rparr>,
      \<lparr>cidr_block = (167772672, 24), network_address = 167772672, broadcast_address = 167772927, first_usable = 167772673, last_usable = 167772926, usable_ips = 254, suggested_az = ''b''\<rparr>])
   \<and> ip_network (vpc_cidr \<lparr>vpc_cidr = (167772160, 16), existing_subnets = [(167772160, 24)], available_azs = [''a'', ''b'']\<rparr>) True = Inr \<lparr>net_address = 167772160, net_mask = 4294901760, net_prefixlen = 16\<rparr>
   \<and> \<lparr>cidr_block = (167772672, 24), network_address = 167772672, broadcast_address = 167772927, first_usable = 167772673, last_usable = 167772926, usable_ips = 254, suggested_az = ''b''\<rparr> \<in> set [\<lparr>cidr_block = (167772416, 24), network_address = 167772416, broadcast_address = 167772671, first_usable = 167772417, last_usable = 167772670, usable_ips = 254, suggested_az = ''a''\<rparr>,
      \<lparr>cidr_block = (167772672, 24), network_address = 167772672, broadcast_address = 167772927, first_usable = 167772673, last_usable = 167772926, usable_ips = 254, suggested_az = ''b''\<rparr>]
   \<and> contains \<lparr>net_address = 167772160, net_mask = 4294901760, net_prefixlen = 16\<rparr> (network_address \<lparr>cidr_block = (167772672, 24), network_address = 167772672, broadcast_address = 167772927, first_usable = 167772673, last_usable = 167772926, usable_ips = 254, suggested_az = ''b''\<rparr>)
   \<and> contains \<lparr>net_address = 167772160, net_mask = 4294901760, net_prefixlen = 16\<rparr> (broadcast_address \<lparr>cidr_block = (167772672, 24), network_address = 167772672, broadcast_address = 167772927, first_usable = 167772673, last_usable = 167772926, usable_ips = 254, suggested_az = ''b''\<rparr>)"
proof -
  have v: "ip_network (vpc_cidr \<lparr>vpc_cidr = (167772160, 16), existing_subnets = [(167772160, 24)], available_azs = [''a'', ''b'']\<rparr>) True = Inr \<lparr>net_address = 167772160, net_mask = 4294901760, net_prefixlen = 16\<rparr>"
    by (simp add: ip_network_def IPv4Network_def IPv4Address_def make_netmask_def ALL_ONES_def)
  have m: "\<lparr>cidr_block = (167772672, 24), network_address = 167772672, broadcast_address = 167772927, first_usable = 167772673, last_usable = 167772926, usable_ips = 254, suggested_az = ''b''\<rparr> \<in> set [\<lparr>cidr_block = (167772416, 24), network_address = 167772416, broadcast_address = 167772671, first_usable = 167772417, last_usable = 167772670, usable_ips = 254, suggested_az = ''a''\<rparr>,
      \<lparr>cidr_block = (167772672, 24), network_address = 167772672, broadcast_address = 167772927, first_usable = 167772673, last_usable = 167772926, usable_ips = 254, suggested_az = ''b''\<rparr>]"
    by simp
  show ?thesis
    using example_run v m candidates_within_parent [OF example_run v m] by simp
qed

section \<open>Alignment\<close>

text \<open>
  Claim C8. Every returned candidate is aligned: its base address is a multiple of the block
  size \<open>2 ^ (32 - new_prefix)\<close> and its prefix length is \<open>new_prefix\<close>; an iteration of the
  loop forms the candidate at the scan pointer rounded down to a multiple of the block size.
\<close>

theorem candidates_aligned:
  "(find_next_subnets self new_prefix count = Some (Inr res) \<longrightarrow>
      (\<forall>c\<in>set res. network_address c mod 2 ^ nat (32 - new_prefix) = 0
                    \<and> snd (cidr_block c) = new_prefix))
   \<and> (try_block self vpc_net new_prefix subs current_ip = Inr (subs', ip') \<longrightarrow>
        network_address (last subs') = current_ip - current_ip mod 2 ^ nat (32 - new_prefix))"
proof (intro conjI impI ballI)
  fix c
  assume r: "find_next_subnets self new_prefix count = Some (Inr res)" and c: "c \<in> set res"
  from r obtain v where "ip_network (vpc_cidr self) True = Inr v"
    by (rule find_next_subnets_Inr)
  from find_next_subnets_members [OF r c this]
  obtain s i i' where tb: "try_block self v new_prefix s i = Inr (s @ [c], i')" by blast
  note f = candidate_facts [OF tb]
  show "network_address c mod 2 ^ nat (32 - new_prefix) = 0"
    unfolding f(4) block_size_def by (simp add: mod_diff_left_eq)
  show "snd (cidr_block c) = new_prefix" using f(3) by simp
next
  assume tb: "try_block self vpc_net new_prefix subs current_ip = Inr (subs', ip')"
  then obtain c where s': "subs' = subs @ [c]" by (rule try_block_Inr) blast
  from candidate_facts(4) [OF tb [unfolded s']] s'
  show "network_address (last subs') = current_ip - current_ip mod 2 ^ nat (32 - new_prefix)"
    by (simp add: block_size_def)
qed

theorem candidates_aligned_witness:
  "find_next_subnets \<lparr>vpc_cidr = (167772160, 16), existing_subnets = [(167772160, 24)], available_azs = [''a'', ''b'']\<rparr> 24 2 =
     Some (Inr [\<lparr>cidr_block = (167772416, 24), network_address = 167772416, broadcast_address = 167772671, first_usable = 167772417, last_usable = 167772670, usable_ips = 254, suggested_az = ''a''\<rparr>,
      \<lparr>cidr_block = (167772672, 24), network_address = 167772672, broadcast_address = 167772927, first_usable = 167772673, last_usable = 167772926, usable_ips = 254, suggested_az = ''b''\<rparr>])
   \<and> network_address \<lparr>cidr_block = (167772672, 24), network_address = 167772672, broadcast_address = 167772927, first_usable = 167772673, last_usable = 167772926, usable_ips = 254, suggested_az = ''b''\<rparr> mod 2 ^ nat (32 - 24) = 0
   \<and> snd (cidr_block \<lparr>cidr_block = (167772672, 24), network_address = 167772672, broadcast_address = 167772927, first_usable = 167772673, last_usable = 167772926, usable_ips = 254, suggested_az = ''b''\<rparr>) = 24
   \<and> try_block \<lparr>vpc_cidr = (167772160, 16), existing_subnets = [(167772160, 24)], available_azs = [''a'', ''b'']\<rparr> \<lparr>net_address = 167772160, net_mask = 4294901760, net_prefixlen = 16\<rparr> 24 [] 167772544 =
       Inr ([\<lparr>cidr_block = (167772416, 24), network_address = 167772416, broadcast_address = 167772671, first_usable = 167772417, last_usable = 167772670, usable_ips = 254, suggested_az = ''a''\<rparr>], 167772672)
   \<and> network_address (last [\<lparr>cidr_block = (167772416, 24), network_address = 167772416, broadcast_address = 167772671, first_usable = 167772417, last_usable = 167772670, usable_ips = 254, suggested_az = ''a''\<rparr>]) = 167772544 - 167772544 mod 2 ^ nat (32 - 24)"
proof -
  have tb: "try_block \<lparr>vpc_cidr = (167772160, 16), existing_subnets = [(167772160, 24)], available_azs = [''a'', ''b'']\<rparr> \<lparr>net_address = 167772160, net_mask = 4294901760, net_prefixlen = 16\<rparr> 24 [] 167772544 =
       Inr ([\<lparr>cidr_block = (167772416, 24), network_address = 167772416, broadcast_address = 167772671, first_usable = 167772417, last_usable = 167772670, usable_ips = 254, suggested_az = ''a''\<rparr>], 167772672)"
    by (simp add: eval_defs)
  show ?thesis
    using example_run tb
      candidates_aligned [where self = "\<lparr>vpc_cidr = (167772160, 16), existing_subnets = [(167772160, 24)], available_azs = [''a'', ''b'']\<rparr>" and new_prefix = 24 and count = 2 and res = "[\<lparr>cidr_block = (167772416, 24), network_address = 167772416, broadcast_address = 167772671, first_usable = 167772417, last_usable = 167772670, usable_ips = 254, suggested_az = ''a''\<rparr>,
      \<lparr>cidr_block = (167772672, 24), network_address = 167772672, broadcast_address = 167772927, first_usable = 167772673, last_usable = 167772926, usable_ips = 254, suggested_az = ''b''\<rparr>]"
        and vpc_net = "\<lparr>net_address = 167772160, net_mask = 4294901760, net_prefixlen = 16\<rparr>" and subs = "[]" and current_ip = 167772544
        and subs' = "[\<lparr>cidr_block = (167772416, 24), network_address = 167772416, broadcast_address = 167772671, first_usable = 167772417, last_usable = 167772670, usable_ips = 254, suggested_az = ''a''\<rparr>]" and ip' = 167772672]
    by simp
qed

section \<open>Ordering\<close>

text \<open>
  Claim C7. On a successful call the returned candidates are strictly increasing by base
  address: for all indices \<open>i < j\<close> of the result, the base address of candidate \<open>i\<close> is
  less than the base address of candidate \<open>j\<close>.
\<close>

theorem candidates_strictly_increasing:
  assumes "find_next_subnets self new_prefix count = Some (Inr res)"
    and "i < j" and "j < length res"
  shows "network_address (res ! i) < network_address (res ! j)"
proof -
  from assms(1) obtain vpc_net s where sc: "scan self vpc_net new_prefix count [] s = Some (Inr res)"
    by (rule find_next_subnets_Inr)
  let ?I = "\<lambda>subs (ip::int). sorted_wrt (<) (map network_address subs)
      \<and> (\<forall>c\<in>set subs. network_address c < ip)
      \<and> (subs \<noteq> [] \<longrightarrow> ip mod block_size new_prefix = 0)"
  have "\<exists>i. ?I res i \<and> \<not> int (length res) < count"
  proof (rule scan_rule [OF sc, where I = ?I])
    show "?I [] s" by simp
  next
    fix s i s' i'
    assume I: "?I s i" and tb: "try_block self vpc_net new_prefix s i = Inr (s', i')"
    from tb obtain c where s': "s' = s @ [c]" by (rule try_block_Inr) blast
    note f = candidate_facts [OF tb [unfolded s']]
    have al: "network_address c mod block_size new_prefix = 0"
      unfolding f(4) by (simp add: mod_diff_left_eq)
    have nc: "s \<noteq> [] \<Longrightarrow> network_address c = i"
      using I f(4) by simp
    have lt: "network_address c < i'"
      using f(5,12) block_size_pos [of new_prefix] by simp
    have "\<forall>d\<in>set s. network_address d < network_address c"
      using I nc by (cases "s = []") auto
    moreover have "i' mod block_size new_prefix = 0"
      using al f(5,12) by (simp add: mod_add_left_eq [symmetric])
    ultimately show "?I s' i'"
      using I lt unfolding s' by (auto simp: sorted_wrt_append)
  qed
  then have "sorted_wrt (<) (map network_address res)" by blast
  then show ?thesis
    using assms(2,3) by (simp add: sorted_wrt_iff_nth_less)
qed

theorem candidates_strictly_increasing_witness:
  "find_next_subnets \<lparr>vpc_cidr = (167772160, 16), existing_subnets = [(167772160, 24)], available_azs = [''a'', ''b'']\<rparr> 24 2 =
     Some (Inr [\<lparr>cidr_block = (167772416, 24), network_address = 167772416, broadcast_address = 167772671, first_usable = 167772417, last_usable = 167772670, usable_ips = 254, suggested_az = ''a''\<rparr>,
      \<lparr>cidr_block = (167772672, 24), network_address = 167772672, broadcast_address = 167772927, first_usable = 167772673, last_usable = 167772926, usable_ips = 254, suggested_az = ''b''\<rparr>])
   \<and> (0 :: nat) < 1
   \<and> 1 < length [\<lparr>cidr_block = (167772416, 24), network_address = 167772416, broadcast_address = 167772671, first_usable = 167772417, last_usable = 167772670, usable_ips = 254, suggested_az = ''a''\<rparr>,
      \<lparr>cidr_block = (167772672, 24), network_address = 167772672, broadcast_address = 167772927, first_usable = 167772673, last_usable = 167772926, usable_ips = 254, suggested_az = ''b''\<rparr>]
   \<and> network_address ([\<lparr>cidr_block = (167772416, 24), network_address = 167772416, broadcast_address = 167772671, first_usable = 167772417, last_usable = 167772670, usable_ips = 254, suggested_az = ''a''\<rparr>,
      \<lparr>cidr_block = (167772672, 24), network_address = 167772672, broadcast_address = 167772927, first_usable = 167772673, last_usable = 167772926, usable_ips = 254, suggested_az = ''b''\<rparr>] ! 0) < network_address ([\<lparr>cidr_block = (167772416, 24), network_address = 167772416, broadcast_address = 167772671, first_usable = 167772417, last_usable = 167772670, usable_ips = 254, suggested_az = ''a''\<rparr>,
      \<lparr>cidr_block = (167772672, 24), network_address = 167772672, broadcast_address = 167772927, first_usable = 167772673, last_usable = 167772926, usable_ips = 254, suggested_az = ''b''\<rparr>] ! 1)"
proof -
  have l: "1 < length [\<lparr>cidr_block = (167772416, 24), network_address = 167772416, broadcast_address = 167772671, first_usable = 167772417, last_usable = 167772670, usable_ips = 254, suggested_az = ''a''\<rparr>,
      \<lparr>cidr_block = (167772672, 24), network_address = 167772672, broadcast_address = 167772927, first_usable = 167772673, last_usable = 167772926, usable_ips = 254, suggested_az = ''b''\<rparr>]"
    by simp
  show ?thesis
    using example_run l candidates_strictly_increasing [OF example_run zero_less_one l] by simp
qed

section \<open>No partial success\<close>

lemma result_length:
  "(\<exists>e. find_next_subnets self new_prefix count = Some (Inl e))
   \<or> (\<exists>res. find_next_subnets self new_prefix count = Some (Inr res)
           \<and> int (length res) = max 0 count)"
proof -
  from find_next_subnets_returns
  obtain r where r: "find_next_subnets self new_prefix count = Some r" by blast
  show ?thesis
  proof (cases r)
    case (Inl e)
    with r show ?thesis by simp
  next
    case (Inr res)
    with r obtain vpc_net s where sc: "scan self vpc_net new_prefix count [] s = Some (Inr res)"
      by (auto elim: find_next_subnets_Inr)
    let ?I = "\<lambda>subs (i::int). int (length subs) \<le> max 0 count"
    have "\<exists>i. ?I res i \<and> \<not> int (length res) < count"
    proof (rule scan_rule [OF sc, where I = ?I])
      show "?I [] s" by simp
    next
      fix s i s' i'
      assume lt: "int (length s) < count"
        and tb: "try_block self vpc_net new_prefix s i = Inr (s', i')"
      from tb have "loop_body self vpc_net new_prefix s i = Inr (s', i')"
        by (simp add: loop_body_Inr)
      from loop_body_length [OF this] lt show "?I s' i'" by simp
    qed
    then have "int (length res) = max 0 count" by auto
    with r Inr show ?thesis by simp
  qed
qed

text \<open>
  Claim C4. There is no partial success. For every finder, every target prefix and every
  count that is not negative, the call either raises an error, so that no candidate is
  produced, or returns exactly \<open>count\<close> candidates; and for every count whatsoever a
  returned list is never non-empty and shorter than \<open>count\<close>.
\<close>

theorem no_partial_success:
  "(0 \<le> count \<longrightarrow>
      (\<exists>e. find_next_subnets self new_prefix count = Some (Inl e))
      \<or> (\<exists>res. find_next_subnets self new_prefix count = Some (Inr res)
              \<and> int (length res) = count))
   \<and> (find_next_subnets self new_prefix count = Some (Inr res) \<longrightarrow>
        res = [] \<or> int (length res) = count)"
proof (intro conjI impI)
  assume "0 \<le> count"
  then have "max 0 count = count" by simp
  with result_length [of self new_prefix count]
  show "(\<exists>e. find_next_subnets self new_prefix count = Some (Inl e))
      \<or> (\<exists>res. find_next_subnets self new_prefix count = Some (Inr res)
              \<and> int (length res) = count)"
    by simp
next
  assume r: "find_next_subnets self new_prefix count = Some (Inr res)"
  with result_length [of self new_prefix count]
  have "int (length res) = max 0 count" by simp
  then show "res = [] \<or> int (length res) = count"
    by (cases "0 \<le> count") auto
qed

theorem no_partial_success_witness:
  "(0 :: int) \<le> 2
   \<and> find_next_subnets
       \<lparr>vpc_cidr = (167772160, 16), existing_subnets = [(167772160, 24)],
      available_azs = [''a'', ''b'']\<rparr> 24 2 =
     Some (Inr [\<lparr>cidr_block = (167772416, 24), network_address = 167772416,
               broadcast_address = 167772671, first_usable = 167772417,
               last_usable = 167772670, usable_ips = 254, suggested_az = ''a''\<rparr>,
              \<lparr>cidr_block = (167772672, 24), network_address = 167772672,
               broadcast_address = 167772927, first_usable = 167772673,
               last_usable = 167772926, usable_ips = 254, suggested_az = ''b''\<rparr>])
   \<and> int (length [\<lparr>cidr_block = (167772416, 24), network_address = 167772416,
               broadcast_address = 167772671, first_usable = 167772417,
               last_usable = 167772670, usable_ips = 254, suggested_az = ''a''\<rparr>,
              \<lparr>cidr_block = (167772672, 24), network_address = 167772672,
               broadcast_address = 167772927, first_usable = 167772673,
               last_usable = 167772926, usable_ips = 254, suggested_az = ''b''\<rparr>]) = 2"
proof -
  have l: "int (length [\<lparr>cidr_block = (167772416, 24), network_address = 167772416,
               broadcast_address = 167772671, first_usable = 167772417,
               last_usable = 167772670, usable_ips = 254, suggested_az = ''a''\<rparr>,
              \<lparr>cidr_block = (167772672, 24), network_address = 167772672,
               broadcast_address = 167772927, first_usable = 167772673,
               last_usable = 167772926, usable_ips = 254, suggested_az = ''b''\<rparr>]) = 2"
    by simp
  from no_partial_success [where self = "\<lparr>vpc_cidr = (167772160, 16), existing_subnets = [(167772160, 24)],
      available_azs = [''a'', ''b'']\<rparr>" and new_prefix = 24 and count = 2
      and res = "[\<lparr>cidr_block = (167772416, 24), network_address = 167772416,
               broadcast_address = 167772671, first_usable = 167772417,
               last_usable = 167772670, usable_ips = 254, suggested_az = ''a''\<rparr>,
              \<lparr>cidr_block = (167772672, 24), network_address = 167772672,
               broadcast_address = 167772927, first_usable = 167772673,
               last_usable = 167772926, usable_ips = 254, suggested_az = ''b''\<rparr>]"] example_run l
  show ?thesis by simp
qed

section \<open>Usable addresses\<close>

text \<open>
  Claim C3, as the code has it. The annotations of every returned candidate, of any prefix
  length, are the generic arithmetic: the usable count is the block size minus 2 (0 for prefix
  31, -1 for prefix 32), the first usable address is the network address plus 1 and the last
  usable address is the broadcast address minus 1.
\<close>

theorem usable_annotations_generic:
  assumes "find_next_subnets self new_prefix count = Some (Inr res)"
    and "c \<in> set res"
  shows "usable_ips c = 2 ^ nat (32 - new_prefix) - 2
       \<and> first_usable c = network_address c + 1
       \<and> last_usable c = broadcast_address c - 1"
proof -
  from assms(1) obtain vpc_net where "ip_network (vpc_cidr self) True = Inr vpc_net"
    by (rule find_next_subnets_Inr)
  from find_next_subnets_members [OF assms this]
  obtain s i i' where tb: "try_block self vpc_net new_prefix s i = Inr (s @ [c], i')" by blast
  note f = candidate_facts [OF tb]
  from f(6,7,8) show ?thesis by (simp add: block_size_def)
qed

theorem usable_annotations_generic_witness:
  "find_next_subnets \<lparr>vpc_cidr = (167772160, 16), existing_subnets = [(167772160, 24)], available_azs = [''a'', ''b'']\<rparr> 24 2 =
     Some (Inr [\<lparr>cidr_block = (167772416, 24), network_address = 167772416, broadcast_address = 167772671, first_usable = 167772417, last_usable = 167772670, usable_ips = 254, suggested_az = ''a''\<rparr>,
      \<lparr>cidr_block = (167772672, 24), network_address = 167772672, broadcast_address = 167772927, first_usable = 167772673, last_usable = 167772926, usable_ips = 254, suggested_az = ''b''\<rparr>])
   \<and> \<lparr>cidr_block = (167772416, 24), network_address = 167772416, broadcast_address = 167772671, first_usable = 167772417, last_usable = 167772670, usable_ips = 254, suggested_az = ''a''\<rparr> \<in> set [\<lparr>cidr_block = (167772416, 24), network_address = 167772416, broadcast_address = 167772671, first_usable = 167772417, last_usable = 167772670, usable_ips = 254, suggested_az = ''a''\<rparr>,
      \<lparr>cidr_block = (167772672, 24), network_address = 167772672, broadcast_address = 167772927, first_usable = 167772673, last_usable = 167772926, usable_ips = 254, suggested_az = ''b''\<rparr>]
   \<and> usable_ips \<lparr>cidr_block = (167772416, 24), network_address = 167772416, broadcast_address = 167772671, first_usable = 167772417, last_usable = 167772670, usable_ips = 254, suggested_az = ''a''\<rparr> = 2 ^ nat (32 - 24) - 2
   \<and> first_usable \<lparr>cidr_block = (167772416, 24), network_address = 167772416, broadcast_address = 167772671, first_usable = 167772417, last_usable = 167772670, usable_ips = 254, suggested_az = ''a''\<rparr> = network_address \<lparr>cidr_block = (167772416, 24), network_address = 167772416, broadcast_address = 167772671, first_usable = 167772417, last_usable = 167772670, usable_ips = 254, suggested_az = ''a''\<rparr> + 1
   \<and> last_usable \<lparr>cidr_block = (167772416, 24), network_address = 167772416, broadcast_address = 167772671, first_usable = 167772417, last_usable = 167772670, usable_ips = 254, suggested_az = ''a''\<rparr> = broadcast_address \<lparr>cidr_block = (167772416, 24), network_address = 167772416, broadcast_address = 167772671, first_usable = 167772417, last_usable = 167772670, usable_ips = 254, suggested_az = ''a''\<rparr> - 1"
proof -
  have m: "\<lparr>cidr_block = (167772416, 24), network_address = 167772416, broadcast_address = 167772671, first_usable = 167772417, last_usable = 167772670, usable_ips = 254, suggested_az = ''a''\<rparr> \<in> set [\<lparr>cidr_block = (167772416, 24), network_address = 167772416, broadcast_address = 167772671, first_usable = 167772417, last_usable = 167772670, usable_ips = 254, suggested_az = ''a''\<rparr>,
      \<lparr>cidr_block = (167772672, 24), network_address = 167772672, broadcast_address = 167772927, first_usable = 167772673, last_usable = 167772926, usable_ips = 254, suggested_az = ''b''\<rparr>]"
    by simp
  show ?thesis
    using example_run m usable_annotations_generic [OF example_run m] by simp
qed

text \<open>
  A candidate of prefix length 32 in the parent 10.0.0.0/24: the usable count is -1, not the
  block size 1, and the first and last usable addresses are the neighbours 10.0.0.1 and
  9.255.255.255 of the single address 10.0.0.0.
\<close>

theorem prefix_32_annotations:
  "find_next_subnets \<lparr>vpc_cidr = (167772160, 24), existing_subnets = [], available_azs = [''a'']\<rparr> 32 1 =
     Some (Inr [\<lparr>cidr_block = (167772160, 32), network_address = 167772160, broadcast_address = 167772160, first_usable = 167772161, last_usable = 167772159, usable_ips = - 1, suggested_az = ''a''\<rparr>])
   \<and> usable_ips \<lparr>cidr_block = (167772160, 32), network_address = 167772160, broadcast_address = 167772160, first_usable = 167772161, last_usable = 167772159, usable_ips = - 1, suggested_az = ''a''\<rparr> \<noteq> 1
   \<and> first_usable \<lparr>cidr_block = (167772160, 32), network_address = 167772160, broadcast_address = 167772160, first_usable = 167772161, last_usable = 167772159, usable_ips = - 1, suggested_az = ''a''\<rparr> \<noteq> network_address \<lparr>cidr_block = (167772160, 32), network_address = 167772160, broadcast_address = 167772160, first_usable = 167772161, last_usable = 167772159, usable_ips = - 1, suggested_az = ''a''\<rparr>
   \<and> last_usable \<lparr>cidr_block = (167772160, 32), network_address = 167772160, broadcast_address = 167772160, first_usable = 167772161, last_usable = 167772159, usable_ips = - 1, suggested_az = ''a''\<rparr> \<noteq> network_address \<lparr>cidr_block = (167772160, 32), network_address = 167772160, broadcast_address = 167772160, first_usable = 167772161, last_usable = 167772159, usable_ips = - 1, suggested_az = ''a''\<rparr>"
  by (simp add: eval_defs)

section \<open>The first scenario\<close>

text \<open>
  Claim C9. With parent 10.0.0.0/16, no allocated block, target prefix 24, count 3 and labels
  a, b, c, the call succeeds and returns 10.0.0.0/24, 10.0.1.0/24 and 10.0.2.0/24 in this
  order, labelled a, b and c: the label of candidate \<open>i\<close> is the label at index \<open>i\<close>
  modulo the number of labels.
\<close>

theorem scenario_three_subnets:
  "find_next_subnets \<lparr>vpc_cidr = (167772160, 16), existing_subnets = [], available_azs = [''a'', ''b'', ''c'']\<rparr> 24 3 =
     Some (Inr [\<lparr>cidr_block = (167772160, 24), network_address = 167772160, broadcast_address = 167772415, first_usable = 167772161, last_usable = 167772414, usable_ips = 254, suggested_az = ''a''\<rparr>,
      \<lparr>cidr_block = (167772416, 24), network_address = 167772416, broadcast_address = 167772671, first_usable = 167772417, last_usable = 167772670, usable_ips = 254, suggested_az = ''b''\<rparr>,
      \<lparr>cidr_block = (167772672, 24), network_address = 167772672, broadcast_address = 167772927, first_usable = 167772673, last_usable = 167772926, usable_ips = 254, suggested_az = ''c''\<rparr>])
   \<and> map suggested_az [\<lparr>cidr_block = (167772160, 24), network_address = 167772160, broadcast_address = 167772415, first_usable = 167772161, last_usable = 167772414, usable_ips = 254, suggested_az = ''a''\<rparr>,
      \<lparr>cidr_block = (167772416, 24), network_address = 167772416, broadcast_address = 167772671, first_usable = 167772417, last_usable = 167772670, usable_ips = 254, suggested_az = ''b''\<rparr>,
      \<lparr>cidr_block = (167772672, 24), network_address = 167772672, broadcast_address = 167772927, first_usable = 167772673, last_usable = 167772926, usable_ips = 254, suggested_az = ''c''\<rparr>] = map (\<lambda>i. [''a'', ''b'', ''c''] ! (i mod length [''a'', ''b'', ''c''])) [0, 1, 2]"
  by (simp add: eval_defs)

section \<open>Candidates against allocated blocks\<close>

text \<open>
  Claim C1 fails on the code. With parent 10.0.0.0/16 and the single allocated block
  10.0.0.0/25, a request for one block of prefix length 24 starts the scan at 10.0.0.128,
  rounds it down to 10.0.0.0 and returns 10.0.0.0/24, which contains the allocated block.
\<close>

theorem candidate_overlaps_allocated:
  "find_next_subnets \<lparr>vpc_cidr = (167772160, 16), existing_subnets = [(167772160, 25)], available_azs = [''a'']\<rparr> 24 1 =
     Some (Inr [\<lparr>cidr_block = (167772160, 24), network_address = 167772160, broadcast_address = 167772415, first_usable = 167772161, last_usable = 167772414, usable_ips = 254, suggested_az = ''a''\<rparr>])
   \<and> ip_network (cidr_block \<lparr>cidr_block = (167772160, 24), network_address = 167772160, broadcast_address = 167772415, first_usable = 167772161, last_usable = 167772414, usable_ips = 254, suggested_az = ''a''\<rparr>) True = Inr \<lparr>net_address = 167772160, net_mask = 4294967040, net_prefixlen = 24\<rparr>
   \<and> ip_network (167772160, 25) True = Inr \<lparr>net_address = 167772160, net_mask = 4294967168, net_prefixlen = 25\<rparr>
   \<and> overlaps \<lparr>net_address = 167772160, net_mask = 4294967040, net_prefixlen = 24\<rparr> \<lparr>net_address = 167772160, net_mask = 4294967168, net_prefixlen = 25\<rparr>
   \<and> subnet_of \<lparr>net_address = 167772160, net_mask = 4294967168, net_prefixlen = 25\<rparr> \<lparr>net_address = 167772160, net_mask = 4294967040, net_prefixlen = 24\<rparr>"
  by (simp add: eval_defs overlaps_def contains_def)

section \<open>The scan start\<close>

text \<open>
  Claim C6. The scan starts at the network address of the parent block when no block is
  allocated. Otherwise it starts one past the broadcast address of the last allocated block
  (an address of the IPv4 range, or the call raises), and when the allocated blocks are
  sorted ascending by base address and pairwise non-overlapping, no allocated block has an
  address above the broadcast address of the last one.
\<close>

theorem scan_start_address:
  assumes "ip_network (vpc_cidr self) True = Inr vpc_net"
  shows "(existing_subnets self = [] \<longrightarrow>
            start_ip self vpc_net = Inr (net_address vpc_net)
            \<and> net_address vpc_net = fst (vpc_cidr self))
       \<and> (existing_subnets self \<noteq> []
            \<and> map (\<lambda>c. ip_network c True) (existing_subnets self) = map Inr allocated
            \<and> sorted_wrt (\<lambda>a b. net_address a \<le> net_address b \<and> \<not> overlaps a b) allocated \<longrightarrow>
            start_ip self vpc_net = IPv4Address (net_broadcast (last allocated) + 1)
            \<and> (\<forall>a\<in>set allocated. net_broadcast a \<le> net_broadcast (last allocated)))"
proof (intro conjI impI)
  assume "existing_subnets self = []"
  then show "start_ip self vpc_net = Inr (net_address vpc_net)"
    by (simp add: start_ip_def find_last_ip_def)
next
  from assms have "ip_network (fst (vpc_cidr self), snd (vpc_cidr self)) True = Inr vpc_net"
    by simp
  from ip_network_Inr(8) [OF this] show "net_address vpc_net = fst (vpc_cidr self)" by simp
next
  assume h: "existing_subnets self \<noteq> []
        \<and> map (\<lambda>c. ip_network c True) (existing_subnets self) = map Inr allocated
        \<and> sorted_wrt (\<lambda>a b. net_address a \<le> net_address b \<and> \<not> overlaps a b) allocated"
  then have ne: "existing_subnets self \<noteq> []"
    and m: "map (\<lambda>c. ip_network c True) (existing_subnets self) = map Inr allocated"
    and s: "sorted_wrt (\<lambda>a b. net_address a \<le> net_address b \<and> \<not> overlaps a b) allocated"
    by blast+
  from m have "length (existing_subnets self) = length allocated"
    by (rule map_eq_imp_length_eq)
  with ne have na: "allocated \<noteq> []" by auto
  have "ip_network (last (existing_subnets self)) True
          = last (map (\<lambda>c. ip_network c True) (existing_subnets self))"
    using ne by (simp add: last_map)
  also have "\<dots> = last (map Inr allocated)"
    by (simp only: m)
  also have "\<dots> = Inr (last allocated)"
    using na by (simp add: last_map)
  finally have l: "ip_network (last (existing_subnets self)) True = Inr (last allocated)" .
  show "start_ip self vpc_net = IPv4Address (net_broadcast (last allocated) + 1)"
    using ne l by (simp add: start_ip_def find_last_ip_def)
  show "\<forall>a\<in>set allocated. net_broadcast a \<le> net_broadcast (last allocated)"
    using last_allocated_highest [OF m s] by blast
qed

theorem scan_start_address_witness:
  "ip_network (vpc_cidr \<lparr>vpc_cidr = (167772160, 16), existing_subnets = [], available_azs = [''a'']\<rparr>) True =
     Inr \<lparr>net_address = 167772160, net_mask = 4294901760, net_prefixlen = 16\<rparr>
   \<and> existing_subnets \<lparr>vpc_cidr = (167772160, 16), existing_subnets = [], available_azs = [''a'']\<rparr> = []
   \<and> start_ip \<lparr>vpc_cidr = (167772160, 16), existing_subnets = [], available_azs = [''a'']\<rparr> \<lparr>net_address = 167772160, net_mask = 4294901760, net_prefixlen = 16\<rparr> = Inr 167772160
   \<and> ip_network (vpc_cidr \<lparr>vpc_cidr = (167772160, 16), existing_subnets = [(167772160, 24), (167772416, 25)], available_azs = [''a'']\<rparr>) True =
       Inr \<lparr>net_address = 167772160, net_mask = 4294901760, net_prefixlen = 16\<rparr>
   \<and> map (\<lambda>c. ip_network c True) (existing_subnets \<lparr>vpc_cidr = (167772160, 16), existing_subnets = [(167772160, 24), (167772416, 25)], available_azs = [''a'']\<rparr>) =
       map Inr [\<lparr>net_address = 167772160, net_mask = 4294967040, net_prefixlen = 24\<rparr>,
      \<lparr>net_address = 167772416, net_mask = 4294967168, net_prefixlen = 25\<rparr>]
   \<and> start_ip \<lparr>vpc_cidr = (167772160, 16), existing_subnets = [(167772160, 24), (167772416, 25)], available_azs = [''a'']\<rparr> \<lparr>net_address = 167772160, net_mask = 4294901760, net_prefixlen = 16\<rparr> = Inr 167772544"
proof -
  have v0: "ip_network (vpc_cidr \<lparr>vpc_cidr = (167772160, 16), existing_subnets = [], available_azs = [''a'']\<rparr>) True =
     Inr \<lparr>net_address = 167772160, net_mask = 4294901760, net_prefixlen = 16\<rparr>"
    by (simp add: ip_network_def IPv4Network_def IPv4Address_def make_netmask_def ALL_ONES_def)
  have e0: "existing_subnets \<lparr>vpc_cidr = (167772160, 16), existing_subnets = [], available_azs = [''a'']\<rparr> = []"
    by simp
  have v1: "ip_network (vpc_cidr \<lparr>vpc_cidr = (167772160, 16), existing_subnets = [(167772160, 24), (167772416, 25)], available_azs = [''a'']\<rparr>) True =
     Inr \<lparr>net_address = 167772160, net_mask = 4294901760, net_prefixlen = 16\<rparr>"
    by (simp add: ip_network_def IPv4Network_def IPv4Address_def make_netmask_def ALL_ONES_def)
  have n1: "existing_subnets \<lparr>vpc_cidr = (167772160, 16), existing_subnets = [(167772160, 24), (167772416, 25)], available_azs = [''a'']\<rparr> \<noteq> []"
    by simp
  have m1: "map (\<lambda>c. ip_network c True) (existing_subnets \<lparr>vpc_cidr = (167772160, 16), existing_subnets = [(167772160, 24), (167772416, 25)], available_azs = [''a'']\<rparr>) =
       map Inr [\<lparr>net_address = 167772160, net_mask = 4294967040, net_prefixlen = 24\<rparr>,
      \<lparr>net_address = 167772416, net_mask = 4294967168, net_prefixlen = 25\<rparr>]"
    by (simp add: ip_network_def IPv4Network_def IPv4Address_def make_netmask_def ALL_ONES_def)
  have s1: "sorted_wrt (\<lambda>a b. net_address a \<le> net_address b \<and> \<not> overlaps a b)
      [\<lparr>net_address = 167772160, net_mask = 4294967040, net_prefixlen = 24\<rparr>,
      \<lparr>net_address = 167772416, net_mask = 4294967168, net_prefixlen = 25\<rparr>]"
    by (simp add: overlaps_def contains_def net_broadcast_def net_hostmask_def ALL_ONES_def)
  have b: "IPv4Address (net_broadcast (last [\<lparr>net_address = 167772160, net_mask = 4294967040, net_prefixlen = 24\<rparr>,
      \<lparr>net_address = 167772416, net_mask = 4294967168, net_prefixlen = 25\<rparr>]) + 1) = Inr 167772544"
    by (simp add: IPv4Address_def net_broadcast_def net_hostmask_def ALL_ONES_def)
  from scan_start_address [OF v0, where allocated = "[]"] e0
  have c0: "start_ip \<lparr>vpc_cidr = (167772160, 16), existing_subnets = [], available_azs = [''a'']\<rparr> \<lparr>net_address = 167772160, net_mask = 4294901760, net_prefixlen = 16\<rparr> = Inr 167772160"
    by simp
  from scan_start_address [OF v1, where allocated = "[\<lparr>net_address = 167772160, net_mask = 4294967040, net_prefixlen = 24\<rparr>,
      \<lparr>net_address = 167772416, net_mask = 4294967168, net_prefixlen = 25\<rparr>]"] n1 m1 s1
  have "start_ip \<lparr>vpc_cidr = (167772160, 16), existing_subnets = [(167772160, 24), (167772416, 25)], available_azs = [''a'']\<rparr> \<lparr>net_address = 167772160, net_mask = 4294901760, net_prefixlen = 16\<rparr> =
      IPv4Address (net_broadcast (last [\<lparr>net_address = 167772160, net_mask = 4294967040, net_prefixlen = 24\<rparr>,
      \<lparr>net_address = 167772416, net_mask = 4294967168, net_prefixlen = 25\<rparr>]) + 1)"
    by blast
  then have c1: "start_ip \<lparr>vpc_cidr = (167772160, 16), existing_subnets = [(167772160, 24), (167772416, 25)], available_azs = [''a'']\<rparr> \<lparr>net_address = 167772160, net_mask = 4294901760, net_prefixlen = 16\<rparr> = Inr 167772544"
    by (simp only: b)
  from v0 e0 c0 v1 m1 c1 show ?thesis by (intro conjI)
qed

section \<open>Requests outside the preconditions\<close>

text \<open>
  Claim C2, as the code has it. For a well-formed parent block and scan start, and a count of
  at least 1:
  \<^item> a target prefix outside 0..32 makes the call raise the \<^verbatim>\<open>ValueError\<close> that wraps the
    factory's \<^verbatim>\<open>ValueError\<close> (not an IPv4 or IPv6 network);
  \<^item> a target prefix in 0..32 that is smaller than the parent's prefix length makes it raise
    the same no-more-space \<^verbatim>\<open>ValueError\<close> that exhaustion raises;
  \<^item> an empty label list makes it raise \<^verbatim>\<open>ZeroDivisionError\<close> when the first candidate lies
    in the parent and its first and last usable addresses are IPv4 addresses, and in every
    case either \<^verbatim>\<open>ZeroDivisionError\<close> or the \<^verbatim>\<open>ValueError\<close> of the handler.
  In these cases no candidate is produced. With a count below 1 the call raises nothing and
  returns the empty list.
\<close>

theorem precondition_violations:
  assumes "ip_network (vpc_cidr self) True = Inr vpc_net"
    and "start_ip self vpc_net = Inr s"
  shows "(1 \<le> count \<and> (new_prefix < 0 \<or> 32 < new_prefix) \<longrightarrow>
            find_next_subnets self new_prefix count
              = Some (Inl (ErrorCalculating NotANetwork)))
       \<and> (1 \<le> count \<and> 0 \<le> new_prefix \<and> new_prefix < net_prefixlen vpc_net \<longrightarrow>
            find_next_subnets self new_prefix count = Some (Inl (ErrorCalculating NoMoreSpace)))
       \<and> (1 \<le> count \<and> available_azs self = []
            \<and> ip_network (s, new_prefix) False = Inr next_net \<and> subnet_of next_net vpc_net
            \<and> IPv4Address (net_address next_net + 1) = Inr fu
            \<and> IPv4Address (net_broadcast next_net - 1) = Inr lu \<longrightarrow>
            find_next_subnets self new_prefix count = Some (Inl ZeroDivisionError))
       \<and> (1 \<le> count \<and> available_azs self = [] \<longrightarrow>
            find_next_subnets self new_prefix count = Some (Inl ZeroDivisionError)
            \<or> (\<exists>e. find_next_subnets self new_prefix count = Some (Inl (ErrorCalculating e))))
       \<and> (count < 1 \<longrightarrow> find_next_subnets self new_prefix count = Some (Inr []))"
proof -
  have fns: "find_next_subnets self new_prefix count = scan self vpc_net new_prefix count [] s"
    using assms by (simp add: find_next_subnets_def)
  have s: "IPv4Address s = Inr s"
    using assms by (rule start_ip_valid)
  have a: "find_next_subnets self new_prefix count
              = Some (Inl (ErrorCalculating NotANetwork))"
    if "1 \<le> count" and "new_prefix < 0 \<or> 32 < new_prefix"
  proof -
    have "make_netmask new_prefix = Inl NetmaskValueError"
      using that(2) by (auto simp: make_netmask_def)
    then have "IPv4Network (s, new_prefix) False = Inl NetmaskValueError"
      using s by (simp add: IPv4Network_def)
    then have "ip_network (s, new_prefix) False = Inl NotANetwork"
      by (simp add: ip_network_def)
    then have "try_block self vpc_net new_prefix [] s = Inl NotANetwork"
      by (simp add: try_block_def)
    then have "loop_body self vpc_net new_prefix [] s = Inl (ErrorCalculating NotANetwork)"
      by (simp add: loop_body_def)
    then show ?thesis
      unfolding fns scan_first [OF that(1)] by simp
  qed
  have b: "find_next_subnets self new_prefix count = Some (Inl (ErrorCalculating NoMoreSpace))"
    if "1 \<le> count" and "0 \<le> new_prefix" and "new_prefix < net_prefixlen vpc_net"
  proof -
    from assms(1) have "ip_network (fst (vpc_cidr self), snd (vpc_cidr self)) True = Inr vpc_net"
      by simp
    note g = ip_network_Inr [OF this]
    have "new_prefix \<le> 32" using that(3) g(4,5) by simp
    with that(2) obtain m where "make_netmask new_prefix = Inr m"
      by (simp add: make_netmask_def)
    with s obtain n where n: "ip_network (s, new_prefix) False = Inr n"
      by (simp add: ip_network_def IPv4Network_def)
    from larger_block_not_subnet [OF n assms(1) that(3)]
    have "try_block self vpc_net new_prefix [] s = Inl NoMoreSpace"
      using n by (simp add: try_block_def)
    then have "loop_body self vpc_net new_prefix [] s = Inl (ErrorCalculating NoMoreSpace)"
      by (simp add: loop_body_def)
    then show ?thesis
      unfolding fns scan_first [OF that(1)] by simp
  qed
  have c: "find_next_subnets self new_prefix count = Some (Inl ZeroDivisionError)"
    if "1 \<le> count" and "available_azs self = []"
      and "ip_network (s, new_prefix) False = Inr next_net" and "subnet_of next_net vpc_net"
      and "IPv4Address (net_address next_net + 1) = Inr fu"
      and "IPv4Address (net_broadcast next_net - 1) = Inr lu"
  proof -
    have "try_block self vpc_net new_prefix [] s = Inl ZeroDivisionError"
      using that(2-6) by (simp add: try_block_def)
    then have "loop_body self vpc_net new_prefix [] s = Inl ZeroDivisionError"
      by (simp add: loop_body_def)
    then show ?thesis
      unfolding fns scan_first [OF that(1)] by simp
  qed
  have d: "find_next_subnets self new_prefix count = Some (Inl ZeroDivisionError)
      \<or> (\<exists>e. find_next_subnets self new_prefix count = Some (Inl (ErrorCalculating e)))"
    if "1 \<le> count" and "available_azs self = []"
  proof (cases "try_block self vpc_net new_prefix [] s")
    case (Inl e)
    show ?thesis
    proof (cases "is_ValueError e")
      case True
      with Inl have "loop_body self vpc_net new_prefix [] s = Inl (ErrorCalculating e)"
        by (simp add: loop_body_def)
      then show ?thesis
        unfolding fns scan_first [OF that(1)] by simp
    next
      case False
      then have "e = ZeroDivisionError" by (cases e) simp_all
      with Inl have "loop_body self vpc_net new_prefix [] s = Inl ZeroDivisionError"
        by (simp add: loop_body_def)
      then show ?thesis
        unfolding fns scan_first [OF that(1)] by simp
    qed
  next
    case (Inr st)
    then have "try_block self vpc_net new_prefix [] s = Inr (fst st, snd st)" by simp
    then have "available_azs self \<noteq> []" by (rule try_block_Inr)
    with that(2) show ?thesis by simp
  qed
  have e: "find_next_subnets self new_prefix count = Some (Inr [])" if "count < 1"
    unfolding fns using that by (subst scan.simps) simp
  from a b c d e show ?thesis by blast
qed

theorem precondition_violations_witness:
  "ip_network (vpc_cidr \<lparr>vpc_cidr = (167772160, 24), existing_subnets = [], available_azs = [''a'']\<rparr>) True =
     Inr \<lparr>net_address = 167772160, net_mask = 4294967040, net_prefixlen = 24\<rparr>
   \<and> start_ip \<lparr>vpc_cidr = (167772160, 24), existing_subnets = [], available_azs = [''a'']\<rparr>
       \<lparr>net_address = 167772160, net_mask = 4294967040, net_prefixlen = 24\<rparr> = Inr 167772160
   \<and> find_next_subnets \<lparr>vpc_cidr = (167772160, 24), existing_subnets = [], available_azs = [''a'']\<rparr> 33 1 =
       Some (Inl (ErrorCalculating NotANetwork))
   \<and> find_next_subnets \<lparr>vpc_cidr = (167772160, 24), existing_subnets = [], available_azs = [''a'']\<rparr> 16 1 =
       Some (Inl (ErrorCalculating NoMoreSpace))
   \<and> ip_network (vpc_cidr \<lparr>vpc_cidr = (167772160, 24), existing_subnets = [], available_azs = []\<rparr>) True =
       Inr \<lparr>net_address = 167772160, net_mask = 4294967040, net_prefixlen = 24\<rparr>
   \<and> start_ip \<lparr>vpc_cidr = (167772160, 24), existing_subnets = [], available_azs = []\<rparr>
       \<lparr>net_address = 167772160, net_mask = 4294967040, net_prefixlen = 24\<rparr> = Inr 167772160
   \<and> ip_network (167772160, 26) False =
       Inr \<lparr>net_address = 167772160, net_mask = 4294967232, net_prefixlen = 26\<rparr>
   \<and> subnet_of \<lparr>net_address = 167772160, net_mask = 4294967232, net_prefixlen = 26\<rparr>
       \<lparr>net_address = 167772160, net_mask = 4294967040, net_prefixlen = 24\<rparr>
   \<and> find_next_subnets \<lparr>vpc_cidr = (167772160, 24), existing_subnets = [], available_azs = []\<rparr> 26 1 =
       Some (Inl ZeroDivisionError)
   \<and> find_next_subnets \<lparr>vpc_cidr = (167772160, 24), existing_subnets = [], available_azs = [''a'']\<rparr> 26 0 = Some (Inr [])"
proof -
  have v: "ip_network (vpc_cidr \<lparr>vpc_cidr = (167772160, 24), existing_subnets = [], available_azs = [''a'']\<rparr>) True =
     Inr \<lparr>net_address = 167772160, net_mask = 4294967040, net_prefixlen = 24\<rparr>"
    by (simp add: ip_network_def IPv4Network_def IPv4Address_def make_netmask_def ALL_ONES_def)
  have s: "start_ip \<lparr>vpc_cidr = (167772160, 24), existing_subnets = [], available_azs = [''a'']\<rparr>
       \<lparr>net_address = 167772160, net_mask = 4294967040, net_prefixlen = 24\<rparr> = Inr 167772160"
    by (simp add: start_ip_def find_last_ip_def)
  have ve: "ip_network (vpc_cidr \<lparr>vpc_cidr = (167772160, 24), existing_subnets = [], available_azs = []\<rparr>) True =
     Inr \<lparr>net_address = 167772160, net_mask = 4294967040, net_prefixlen = 24\<rparr>"
    by (simp add: ip_network_def IPv4Network_def IPv4Address_def make_netmask_def ALL_ONES_def)
  have se: "start_ip \<lparr>vpc_cidr = (167772160, 24), existing_subnets = [], available_azs = []\<rparr>
       \<lparr>net_address = 167772160, net_mask = 4294967040, net_prefixlen = 24\<rparr> = Inr 167772160"
    by (simp add: start_ip_def find_last_ip_def)
  have n: "ip_network (167772160, 26) False =
       Inr \<lparr>net_address = 167772160, net_mask = 4294967232, net_prefixlen = 26\<rparr>"
    by (simp add: ip_network_def IPv4Network_def IPv4Address_def make_netmask_def ALL_ONES_def)
  have sub: "subnet_of \<lparr>net_address = 167772160, net_mask = 4294967232, net_prefixlen = 26\<rparr>
       \<lparr>net_address = 167772160, net_mask = 4294967040, net_prefixlen = 24\<rparr>"
    by (simp add: subnet_of_def net_broadcast_def net_hostmask_def ALL_ONES_def)
  have fu: "IPv4Address (net_address \<lparr>net_address = 167772160, net_mask = 4294967232, net_prefixlen = 26\<rparr> + 1) = Inr 167772161"
    by (simp add: IPv4Address_def ALL_ONES_def)
  have lu: "IPv4Address (net_broadcast \<lparr>net_address = 167772160, net_mask = 4294967232, net_prefixlen = 26\<rparr> - 1) = Inr 167772222"
    by (simp add: IPv4Address_def net_broadcast_def net_hostmask_def ALL_ONES_def)
  have az: "available_azs \<lparr>vpc_cidr = (167772160, 24), existing_subnets = [], available_azs = []\<rparr> = []"
    by simp
  have a: "find_next_subnets \<lparr>vpc_cidr = (167772160, 24), existing_subnets = [], available_azs = [''a'']\<rparr> 33 1 =
       Some (Inl (ErrorCalculating NotANetwork))"
    using precondition_violations [OF v s, where count = 1 and new_prefix = 33] by simp
  have b: "find_next_subnets \<lparr>vpc_cidr = (167772160, 24), existing_subnets = [], available_azs = [''a'']\<rparr> 16 1 =
       Some (Inl (ErrorCalculating NoMoreSpace))"
    using precondition_violations [OF v s, where count = 1 and new_prefix = 16] by simp
  have c: "find_next_subnets \<lparr>vpc_cidr = (167772160, 24), existing_subnets = [], available_azs = []\<rparr> 26 1 =
       Some (Inl ZeroDivisionError)"
    using precondition_violations [OF ve se, where count = 1 and new_prefix = 26
        and next_net = "\<lparr>net_address = 167772160, net_mask = 4294967232, net_prefixlen = 26\<rparr>"
        and fu = 167772161 and lu = 167772222] az n sub fu lu
    by blast
  have d: "find_next_subnets \<lparr>vpc_cidr = (167772160, 24), existing_subnets = [], available_azs = [''a'']\<rparr> 26 0 = Some (Inr [])"
    using precondition_violations [OF v s, where count = 0 and new_prefix = 26] by simp
  from v s a b ve se n sub c d show ?thesis by (intro conjI)
qed

text \<open>
  A count of 0 is answered with the empty list and no error; a target prefix of 16 under the
  parent 10.0.0.0/24 raises the very error that exhaustion raises (parent 10.0.0.0/24 with
  10.0.0.0/25 allocated, two blocks of prefix length 25 requested).
\<close>

theorem invalid_request_not_reported:
  "find_next_subnets \<lparr>vpc_cidr = (167772160, 24), existing_subnets = [], available_azs = [''a'']\<rparr> 26 0 = Some (Inr [])
   \<and> find_next_subnets \<lparr>vpc_cidr = (167772160, 24), existing_subnets = [], available_azs = [''a'']\<rparr> 16 1 = Some (Inl (ErrorCalculating NoMoreSpace))
   \<and> find_next_subnets \<lparr>vpc_cidr = (167772160, 24), existing_subnets = [(167772160, 25)], available_azs = [''a'']\<rparr> 25 2 = Some (Inl (ErrorCalculating NoMoreSpace))"
  by (simp add: eval_defs)

end
